theory Spec2Isabelle
  imports Complex_Main "HOL-Library.AList" "HOL-Library.Sublist" "HOL-Library.Multiset"
begin

section \<open>Data model (models.py)\<close>

text \<open>
  A Python float is an IEEE 754 double. It is modelled by the real number it denotes, and
  every arithmetic operation of the source by the exact operation followed by rounding to
  the nearest double (section \<open>Double-precision arithmetic\<close>). A \<open>date\<close> is a
  (year, month, day) triple. The primary-key field \<open>id\<close> is called \<open>id_p\<close> on a
  purchase and \<open>id_t\<close> on a sales target, and the fields of the other records carry a
  suffix where they would clash with a field of \<open>Purchase\<close>.
\<close>

type_synonym date = "int \<times> int \<times> int"

record PurchaseBase =
  alloy_type :: string
  purity :: real
  quantity_kg :: real
  price_per_kg :: real
  purchase_date :: date
  supplier :: "string option"
  "notes" :: "string option"

record Purchase = PurchaseBase +
  id_p :: "int option"
  remaining_quantity_kg :: real

record SalesTargetBase =
  alloy_type_t :: string
  target_quantity_kg :: real
  month :: int
  year :: int

record SalesTarget = SalesTargetBase +
  id_t :: "int option"

text \<open>
  The database session is the store of the row objects: the rows of the two tables, in the
  order in which a \<open>select\<close> returns them. A row object is referred to by its position
  in its table (\<open>ref\<close>), so that the lists and dictionaries of the optimizer hold
  references into the session, as the Python lists hold references to the ORM objects.
  Every function that can reach a row object takes the session and returns it as it is
  after the call; a write to a row would be an update of \<open>purchase_rows\<close> or
  \<open>salestarget_rows\<close> at that position.
\<close>

record Session =
  purchase_rows :: "Purchase list"
  salestarget_rows :: "SalesTarget list"

type_synonym ref = nat

section \<open>Double-precision arithmetic\<close>

text \<open>
  \<open>round_double\<close> rounds a real number to the nearest double, ties to the even
  significand: a nonzero \<open>x\<close> with \<open>2 ^ e \<le> \<bar>x\<bar> < 2 ^ (e + 1)\<close> is rounded to a
  multiple of \<open>2 ^ (e - 52)\<close> (53 significant bits), and to a multiple of
  \<open>2 ^ (- 1074)\<close> in the subnormal range. \<open>bits n\<close> is the number of binary digits
  of \<open>n\<close>, from which \<open>exponent_of\<close> computes \<open>e\<close>. The exponent range is not
  bounded above: a result of magnitude \<open>2 ^ 1024\<close> or more, which the machine turns
  into an infinity, is outside the model, as are NaN and the sign of zero. The source
  adds (\<open>+=\<close>), subtracts (\<open>-=\<close>) and multiplies (\<open>*\<close>) doubles; \<open>min\<close> and the
  comparisons are exact.
\<close>

fun bits :: "nat \<Rightarrow> nat" where
  "bits n = (if n = 0 then 0 else Suc (bits (n div 2)))"

declare bits.simps [simp del]

definition exponent_of :: "real \<Rightarrow> int" where
  "exponent_of x =
     (if 1 \<le> \<bar>x\<bar> then int (bits (nat \<lfloor>\<bar>x\<bar>\<rfloor>)) - 1
      else - int (bits (nat (\<lceil>1 / \<bar>x\<bar>\<rceil> - 1))))"

definition rne :: "real \<Rightarrow> int" where
  "rne y =
     (let f = \<lfloor>y\<rfloor> in
      if y - of_int f < 1 / 2 then f
      else if 1 / 2 < y - of_int f then f + 1
      else if even f then f else f + 1)"

definition round_double :: "real \<Rightarrow> real" where
  "round_double x =
     (if x = 0 then 0
      else let k = max (exponent_of x - 52) (- 1074)
           in of_int (rne (x / 2 powi k)) * 2 powi k)"

definition fadd :: "real \<Rightarrow> real \<Rightarrow> real" where
  "fadd x y = round_double (x + y)"

definition fsub :: "real \<Rightarrow> real \<Rightarrow> real" where
  "fsub x y = round_double (x - y)"

definition fmul :: "real \<Rightarrow> real \<Rightarrow> real" where
  "fmul x y = round_double (x * y)"

section \<open>The result of the optimizer (optimizer.py)\<close>

text \<open>The dictionaries appended to \<open>result["optimal_mix"]\<close> and \<open>result["to_buy"]\<close>.\<close>

record mix_entry =
  alloy_type_m :: string
  purchase_id :: "int option"
  quantity_used_kg :: real
  price_per_kg_m :: real
  cost :: real

record buy_entry =
  alloy_type_b :: string
  missing_quantity_kg :: real

record result =
  optimal_mix :: "mix_entry list"
  to_buy :: "buy_entry list"
  total_cost_for_targets :: real

section \<open>Dictionaries\<close>

text \<open>
  A Python dictionary keeps its keys in the order of their first insertion, which is the
  order \<open>items()\<close> iterates in. It is an association list updated with
  \<open>AList.update\<close>: an existing key keeps its place, a new key goes to the end.
  \<open>getitem_default\<close> reads a \<open>defaultdict\<close> (the default for a missing key), and is
  also \<open>dict.get(key, default)\<close>.
\<close>

definition getitem_default :: "'v \<Rightarrow> (string \<times> 'v) list \<Rightarrow> string \<Rightarrow> 'v" where
  "getitem_default dflt d k = (case map_of d k of None \<Rightarrow> dflt | Some v \<Rightarrow> v)"

section \<open>The queries\<close>

text \<open>
  Lines 8-10 and 17-19. A \<open>select\<close> reads the session: it returns references to the
  rows that satisfy the \<open>where\<close> clause, in table order, and the session.
\<close>

definition select_targets :: "int \<Rightarrow> int \<Rightarrow> Session \<Rightarrow> ref list \<times> Session" where
  "select_targets y m session =
     (filter (\<lambda>t. year (salestarget_rows session ! t) = y \<and>
                  month (salestarget_rows session ! t) = m)
        [0..<length (salestarget_rows session)],
      session)"

definition select_purchases :: "Session \<Rightarrow> ref list \<times> Session" where
  "select_purchases session =
     (filter (\<lambda>p. remaining_quantity_kg (purchase_rows session ! p) > 0)
        [0..<length (purchase_rows session)],
      session)"

section \<open>The loops\<close>

text \<open>Lines 12-14: \<open>target_by_alloy[t.alloy_type] += t.target_quantity_kg\<close>.\<close>

fun target_by_alloy_loop ::
  "ref list \<Rightarrow> (string \<times> real) list \<Rightarrow> Session \<Rightarrow> (string \<times> real) list \<times> Session" where
  "target_by_alloy_loop [] target_by_alloy session = (target_by_alloy, session)"
| "target_by_alloy_loop (t # ts) target_by_alloy session =
     target_by_alloy_loop ts
       (AList.update (alloy_type_t (salestarget_rows session ! t))
          (fadd (getitem_default 0 target_by_alloy (alloy_type_t (salestarget_rows session ! t)))
                (target_quantity_kg (salestarget_rows session ! t)))
          target_by_alloy)
       session"

text \<open>Lines 21-23: \<open>inventory[p.alloy_type].append(p)\<close>.\<close>

fun inventory_loop ::
  "ref list \<Rightarrow> (string \<times> ref list) list \<Rightarrow> Session \<Rightarrow> (string \<times> ref list) list \<times> Session" where
  "inventory_loop [] inventory session = (inventory, session)"
| "inventory_loop (p # ps) inventory session =
     inventory_loop ps
       (AList.update (alloy_type (purchase_rows session ! p))
          (getitem_default [] inventory (alloy_type (purchase_rows session ! p)) @ [p])
          inventory)
       session"

text \<open>
  Lines 40-59, the loop over the sorted batches of one alloy. The loop state is the
  working counter \<open>left\<close>, the result dictionary and the session; the function returns
  them as they are when the loop ends (by \<open>break\<close> or by exhausting the batches).
\<close>

fun batches_loop ::
  "string \<Rightarrow> ref list \<Rightarrow> real \<Rightarrow> result \<Rightarrow> Session \<Rightarrow> (real \<times> result) \<times> Session" where
  "batches_loop alloy [] left res session = ((left, res), session)"
| "batches_loop alloy (b # bs) left res session =
     (if left \<le> 0 then ((left, res), session)
      else
        let use = min (remaining_quantity_kg (purchase_rows session ! b)) left in
        if use \<le> 0 then batches_loop alloy bs left res session
        else
          let cost' = fmul use (price_per_kg (purchase_rows session ! b));
              res1 = res\<lparr>total_cost_for_targets := fadd (total_cost_for_targets res) cost'\<rparr>;
              res2 = res1\<lparr>optimal_mix := optimal_mix res1 @
                       [\<lparr>alloy_type_m = alloy, purchase_id = id_p (purchase_rows session ! b),
                         quantity_used_kg = use,
                         price_per_kg_m = price_per_kg (purchase_rows session ! b),
                         cost = cost'\<rparr>]\<rparr>
          in batches_loop alloy bs (fsub left use) res2 session)"

text \<open>
  Lines 32-66, the loop over \<open>target_by_alloy.items()\<close>. Python's \<open>sorted\<close> is a
  stable sort, as \<open>sort_key\<close> is; the key of a reference is the price of the row it
  refers to.
\<close>

fun alloy_loop ::
  "(string \<times> ref list) list \<Rightarrow> (string \<times> real) list \<Rightarrow> result \<Rightarrow> Session \<Rightarrow> result \<times> Session" where
  "alloy_loop inventory [] res session = (res, session)"
| "alloy_loop inventory ((alloy, need_qty) # items) res session =
     (let batches = sort_key (\<lambda>x. price_per_kg (purchase_rows session ! x))
                      (getitem_default [] inventory alloy);
          ((left, res1), session1) = batches_loop alloy batches need_qty res session;
          res2 = (if left > 0
                  then res1\<lparr>to_buy := to_buy res1 @
                         [\<lparr>alloy_type_b = alloy, missing_quantity_kg = left\<rparr>]\<rparr>
                  else res1)
      in alloy_loop inventory items res2 session1)"

section \<open>calculate_optimal_mix\<close>

text \<open>
  The function in state-passing style: it returns the result dictionary and the session
  as the call leaves it.
\<close>

definition calculate_optimal_mix :: "Session \<Rightarrow> int \<Rightarrow> int \<Rightarrow> result \<times> Session" where
  "calculate_optimal_mix session y m =
     (let (targets, session1) = select_targets y m session;
          (target_by_alloy, session2) = target_by_alloy_loop targets [] session1;
          (purchases, session3) = select_purchases session2;
          (inventory, session4) = inventory_loop purchases [] session3;
          result = \<lparr>optimal_mix = [], to_buy = [], total_cost_for_targets = 0\<rparr>
      in alloy_loop inventory target_by_alloy result session4)"

section \<open>Definitions for stating the properties\<close>

subsection \<open>What one run of the batch loop appends\<close>

text \<open>
  \<open>batch_steps\<close> is the list of entries that the loop of lines 40-59 appends to
  \<open>result["optimal_mix"]\<close> when it runs over the given rows, and \<open>batch_left\<close> the
  value of \<open>left\<close> when that loop ends; \<open>shortfall\<close> is what lines 61-66 append to
  \<open>result["to_buy"]\<close>. \<open>batches_of\<close> is the rows of the sorted list of lines 35-38 and
  \<open>target_dict\<close> the dictionary \<open>target_by_alloy\<close> of a call. The lemmas
  \<open>batches_loop_eq\<close>, \<open>alloy_loop_eq\<close> and \<open>mix_eq\<close> below prove that the loops
  compute exactly these, and return the session they were given.
\<close>

fun batch_steps :: "string \<Rightarrow> Purchase list \<Rightarrow> real \<Rightarrow> mix_entry list" where
  "batch_steps alloy [] left = []"
| "batch_steps alloy (b # bs) left =
     (if left \<le> 0 then []
      else if min (remaining_quantity_kg b) left \<le> 0 then batch_steps alloy bs left
      else \<lparr>alloy_type_m = alloy, purchase_id = id_p b,
             quantity_used_kg = min (remaining_quantity_kg b) left,
             price_per_kg_m = price_per_kg b,
             cost = fmul (min (remaining_quantity_kg b) left) (price_per_kg b)\<rparr>
           # batch_steps alloy bs (fsub left (min (remaining_quantity_kg b) left)))"

fun batch_left :: "Purchase list \<Rightarrow> real \<Rightarrow> real" where
  "batch_left [] left = left"
| "batch_left (b # bs) left =
     (if left \<le> 0 then left
      else if min (remaining_quantity_kg b) left \<le> 0 then batch_left bs left
      else batch_left bs (fsub left (min (remaining_quantity_kg b) left)))"

definition shortfall :: "string \<Rightarrow> real \<Rightarrow> buy_entry list" where
  "shortfall alloy left =
     (if left > 0 then [\<lparr>alloy_type_b = alloy, missing_quantity_kg = left\<rparr>] else [])"

definition batches_of :: "Session \<Rightarrow> (string \<times> ref list) list \<Rightarrow> string \<Rightarrow> Purchase list" where
  "batches_of session inventory alloy =
     map (nth (purchase_rows session))
       (sort_key (\<lambda>x. price_per_kg (purchase_rows session ! x))
          (getitem_default [] inventory alloy))"

definition target_dict :: "Session \<Rightarrow> int \<Rightarrow> int \<Rightarrow> (string \<times> real) list" where
  "target_dict session y m = fst (target_by_alloy_loop (fst (select_targets y m session)) [] session)"

subsection \<open>Observations on a call\<close>

text \<open>
  The rows the two queries return (the demand lines of the period and the supplied
  lots), the lines and the lots of one grade, and the parts of a result that concern one
  grade or one lot. \<open>demand\<close> and \<open>stock\<close> are exact sums of the stored quantities;
  \<open>need\<close> is the demand as the engine adds it up, in doubles. \<open>missing_for\<close> is the
  \<open>missing_quantity_kg\<close> of the grade's line in \<open>to_buy\<close>, and 0 when there is none.
\<close>

definition targets_of :: "Session \<Rightarrow> int \<Rightarrow> int \<Rightarrow> SalesTarget list" where
  "targets_of session y m = filter (\<lambda>t. year t = y \<and> month t = m) (salestarget_rows session)"

definition lots_of :: "Session \<Rightarrow> Purchase list" where
  "lots_of session = filter (\<lambda>p. remaining_quantity_kg p > 0) (purchase_rows session)"

definition lots_for :: "string \<Rightarrow> Purchase list \<Rightarrow> Purchase list" where
  "lots_for g ps = filter (\<lambda>p. alloy_type p = g) ps"

definition lines_for :: "string \<Rightarrow> SalesTarget list \<Rightarrow> SalesTarget list" where
  "lines_for g ts = filter (\<lambda>t. alloy_type_t t = g) ts"

definition need :: "string \<Rightarrow> SalesTarget list \<Rightarrow> real" where
  "need g ts = foldl fadd 0 (map target_quantity_kg (lines_for g ts))"

definition demand :: "string \<Rightarrow> SalesTarget list \<Rightarrow> real" where
  "demand g ts = sum_list (map target_quantity_kg (lines_for g ts))"


definition mix :: "Session \<Rightarrow> int \<Rightarrow> int \<Rightarrow> result" where
  "mix session y m = fst (calculate_optimal_mix session y m)"

definition steps_for :: "string \<Rightarrow> result \<Rightarrow> mix_entry list" where
  "steps_for g res = filter (\<lambda>e. alloy_type_m e = g) (optimal_mix res)"

definition shortfalls_for :: "string \<Rightarrow> result \<Rightarrow> buy_entry list" where
  "shortfalls_for g res = filter (\<lambda>e. alloy_type_b e = g) (to_buy res)"

definition used :: "int option \<Rightarrow> mix_entry list \<Rightarrow> real" where
  "used i es = sum_list (map quantity_used_kg (filter (\<lambda>e. purchase_id e = i) es))"


subsection \<open>Purchases that agree on the fields the optimizer reads\<close>

definition same_read :: "Purchase \<Rightarrow> Purchase \<Rightarrow> bool" where
  "same_read p q \<longleftrightarrow>
     alloy_type p = alloy_type q \<and> price_per_kg p = price_per_kg q \<and>
     remaining_quantity_kg p = remaining_quantity_kg q \<and> id_p p = id_p q"

subsection \<open>Feasible consumptions of the lots of a grade\<close>



subsection \<open>Runs without rounding\<close>

text \<open>
  A quantity is \<open>whole\<close> when it is a non-negative integer. Doubles represent the
  integers up to \<open>2 ^ 53\<close> exactly, so that a run on whole quantities whose summed
  demand is at most \<open>2 ^ 53\<close> adds and subtracts without rounding
  (\<open>whole_quantities\<close>), and multiplies without rounding when the prices are whole as
  well and no lot is worth more than \<open>2 ^ 53\<close> (\<open>whole_costs\<close>). \<open>ideal_steps\<close> and
  \<open>ideal_left\<close> are \<open>batch_steps\<close> and \<open>batch_left\<close> in exact arithmetic, and
  \<open>greedy_qs\<close> the consumption that \<open>ideal_steps\<close> makes, with 0 for a lot it emits
  no step for; they are used in the proofs only.
\<close>

definition whole :: "real \<Rightarrow> bool" where
  "whole x \<longleftrightarrow> 0 \<le> x \<and> of_int \<lfloor>x\<rfloor> = x"






subsection \<open>Example sessions\<close>

text \<open>
  Scenario A and Scenario B of the specification; a session whose two lots have the same
  price and are stored in descending order of \<open>id\<close>; a copy of Scenario A that differs
  in the fields the optimizer does not read; and a session with a lot of a grade that has
  no demand line and a lot of a grade whose only demand line is 0.
\<close>

definition mk_purchase :: "string \<Rightarrow> int \<Rightarrow> real \<Rightarrow> real \<Rightarrow> Purchase" where
  "mk_purchase a i c q =
     \<lparr>alloy_type = a, purity = 1, quantity_kg = q, price_per_kg = c,
      purchase_date = (2024, 1, 1), supplier = None, notes = None,
      id_p = Some i, remaining_quantity_kg = q\<rparr>"

definition mk_target :: "string \<Rightarrow> real \<Rightarrow> SalesTarget" where
  "mk_target a q =
     \<lparr>alloy_type_t = a, target_quantity_kg = q, month = 1, year = 2024, id_t = None\<rparr>"

definition scenario_A :: Session where
  "scenario_A = \<lparr>purchase_rows = [mk_purchase ''steel'' 1 5 60, mk_purchase ''steel'' 2 3 50],
                 salestarget_rows = [mk_target ''steel'' 100]\<rparr>"

definition scenario_B :: Session where
  "scenario_B = \<lparr>purchase_rows = [mk_purchase ''copper'' 1 2 10],
                 salestarget_rows = [mk_target ''copper'' 30]\<rparr>"

definition scenario_tie :: Session where
  "scenario_tie = \<lparr>purchase_rows = [mk_purchase ''steel'' 2 3 4, mk_purchase ''steel'' 1 3 4],
                   salestarget_rows = [mk_target ''steel'' 6]\<rparr>"

definition scenario_A_other :: Session where
  "scenario_A_other =
     \<lparr>purchase_rows = [(mk_purchase ''steel'' 1 5 60)\<lparr>purity := 2, supplier := Some ''acme''\<rparr>,
                       (mk_purchase ''steel'' 2 3 50)\<lparr>quantity_kg := 70, notes := Some ''x''\<rparr>],
      salestarget_rows = [mk_target ''steel'' 100]\<rparr>"

definition scenario_idle :: Session where
  "scenario_idle =
     \<lparr>purchase_rows = [mk_purchase ''zinc'' 1 2 7, mk_purchase ''steel'' 2 3 9],
      salestarget_rows = [mk_target ''steel'' 0, mk_target ''copper'' 5]\<rparr>"

subsection \<open>Sessions on which the arithmetic rounds\<close>















section \<open>Rounding\<close>

lemma bits_bounds: "0 < n \<Longrightarrow> 2 ^ (bits n - 1) \<le> n \<and> n < 2 ^ bits n"
proof (induction n rule: bits.induct)
  case (1 n)
  show ?case
  proof (cases "n div 2 = 0")
    case True
    with "1.prems" have "n = 1" by (simp add: div_eq_0_iff) 
    then show ?thesis by (simp add: bits.simps)
  next
    case False
    then have pos: "0 < n div 2" by simp
    have n0: "n \<noteq> 0" using "1.prems" by simp
    from "1.IH" [OF n0 pos]
    have ih: "2 ^ (bits (n div 2) - 1) \<le> n div 2" "n div 2 < 2 ^ bits (n div 2)" by simp_all
    have b: "bits n = Suc (bits (n div 2))" using n0 by (simp add: bits.simps)
    have bp: "0 < bits (n div 2)" using pos by (simp add: bits.simps)
    have "2 * 2 ^ (bits (n div 2) - 1) \<le> 2 * (n div 2)" using ih(1) by simp
    also have "\<dots> \<le> n" by simp
    finally have lo: "2 ^ bits (n div 2) \<le> n"
      using bp by (cases "bits (n div 2)") simp_all
    have "n < 2 * (n div 2) + 2" by presburger 
    also have "\<dots> \<le> 2 * 2 ^ bits (n div 2)" using ih(2) by simp
    finally have hi: "n < 2 ^ Suc (bits (n div 2))" by simp
    show ?thesis using lo hi by (simp add: b)
  qed
qed

lemma exponent_bounds:
  assumes "x \<noteq> 0"
  shows "2 powi exponent_of x \<le> \<bar>x\<bar>" and "\<bar>x\<bar> < 2 powi (exponent_of x + 1)"
proof -
  have both: "2 powi exponent_of x \<le> \<bar>x\<bar> \<and> \<bar>x\<bar> < 2 powi (exponent_of x + 1)"
  proof (cases "1 \<le> \<bar>x\<bar>")
    case True
    let ?n = "nat \<lfloor>\<bar>x\<bar>\<rfloor>"
    have npos: "0 < ?n" using True by simp
    have e: "exponent_of x = int (bits ?n) - 1" using True by (simp add: exponent_of_def)
    have bpos: "0 < bits ?n" using npos by (simp add: bits.simps)
    from bits_bounds [OF npos] have lo: "2 ^ (bits ?n - 1) \<le> ?n" and hi: "?n < 2 ^ bits ?n"
      by simp_all
    have "(2::real) ^ (bits ?n - 1) \<le> real ?n"
      using lo by (metis of_nat_le_iff of_nat_numeral of_nat_power)
    also have "real ?n \<le> \<bar>x\<bar>" using True by simp
    finally have l: "(2::real) ^ (bits ?n - 1) \<le> \<bar>x\<bar>" .
    have "\<lfloor>\<bar>x\<bar>\<rfloor> < 2 ^ bits ?n"
      using hi by (metis nat_less_iff of_nat_numeral of_nat_power zero_le_floor abs_ge_zero)
    then have "\<bar>x\<bar> < of_int (2 ^ bits ?n)" by (simp add: floor_less_iff)
    then have h: "\<bar>x\<bar> < (2::real) ^ bits ?n" by simp
    have e1: "exponent_of x = int (bits ?n - 1)" using e bpos by simp
    have e2: "exponent_of x + 1 = int (bits ?n)" using e by simp
    show ?thesis unfolding e2 unfolding e1 using l h by simp
  next
    case False
    then have lt: "\<bar>x\<bar> < 1" by simp
    have xpos: "0 < \<bar>x\<bar>" using assms by simp
    let ?z = "1 / \<bar>x\<bar>"
    let ?c = "\<lceil>?z\<rceil>"
    let ?n = "nat (?c - 1)"
    have z1: "1 < ?z" using lt xpos by simp
    then have c2: "2 \<le> ?c" by (simp add: le_ceiling_iff)
    then have npos: "0 < ?n" by simp
    have e: "exponent_of x = - int (bits ?n)" using False by (simp add: exponent_of_def)
    have bpos: "0 < bits ?n" using npos by (simp add: bits.simps)
    from bits_bounds [OF npos] have lo: "2 ^ (bits ?n - 1) \<le> ?n" and hi: "?n < 2 ^ bits ?n"
      by simp_all
    have nn: "int ?n = ?c - 1" using c2 assms by simp
    have "int ?n < 2 ^ bits ?n" using hi by (metis of_nat_less_iff of_nat_numeral of_nat_power)
    then have "?c \<le> 2 ^ bits ?n" unfolding nn by simp
    then have "?z \<le> of_int (2 ^ bits ?n)" by (simp add: ceiling_le_iff)
    then have zh: "?z \<le> 2 ^ bits ?n" by simp
    have "(2::int) ^ (bits ?n - 1) \<le> int ?n"
      using lo by (metis of_nat_le_iff of_nat_numeral of_nat_power)
    then have "(2::int) ^ (bits ?n - 1) < ?c" unfolding nn by simp
    then have "of_int ((2::int) ^ (bits ?n - 1)) < ?z" by (simp add: less_ceiling_iff)
    then have zl: "2 ^ (bits ?n - 1) < ?z" by simp
    have l: "1 / 2 ^ bits ?n \<le> \<bar>x\<bar>"
      using zh xpos by (simp add: field_simps)
    have h: "\<bar>x\<bar> < 1 / 2 ^ (bits ?n - 1)"
      using zl xpos by (simp add: field_simps)
    have p1: "(2::real) powi exponent_of x = 1 / 2 ^ bits ?n"
      unfolding e by (simp add: power_int_minus field_simps)
    have "exponent_of x + 1 = - int (bits ?n - 1)" using e bpos by simp
    then have p2: "(2::real) powi (exponent_of x + 1) = 1 / 2 ^ (bits ?n - 1)"
      by (simp add: power_int_minus field_simps)
    show ?thesis unfolding p1 p2 using l h by simp
  qed
  show "2 powi exponent_of x \<le> \<bar>x\<bar>" using both ..
  show "\<bar>x\<bar> < 2 powi (exponent_of x + 1)" using both ..
qed


lemma rne_of_int: "rne (of_int m) = m"
  by (simp add: rne_def)


lemma round_double_fix:
  assumes "\<bar>m\<bar> \<le> 2 ^ 53" and "- 1074 \<le> j"
  shows "round_double (of_int m * 2 powi j) = of_int m * 2 powi j"
proof (cases "m = 0")
  case True
  then show ?thesis by (simp add: round_double_def)
next
  case False
  let ?x = "of_int m * 2 powi j :: real"
  let ?e = "exponent_of ?x"
  let ?k = "max (?e - 52) (- 1074)"
  have x0: "?x \<noteq> 0" using False by simp
  have ax: "\<bar>?x\<bar> = of_int \<bar>m\<bar> * 2 powi j" by (simp add: abs_mult)
  have "of_int \<bar>m\<bar> \<le> (2::real) ^ 53"
    using assms(1) by (metis of_int_le_iff of_int_numeral of_int_power)
  then have "\<bar>?x\<bar> \<le> 2 ^ 53 * 2 powi j"
    unfolding ax by (intro mult_right_mono) simp_all
  also have "\<dots> = 2 powi (53 + j)" by (simp add: power_int_add)
  finally have up: "\<bar>?x\<bar> \<le> 2 powi (53 + j)" .
  note b = exponent_bounds [OF x0]
  have e_le: "?e \<le> 53 + j"
  proof (rule ccontr)
    assume "\<not> ?e \<le> 53 + j"
    then have "53 + j + 1 \<le> ?e" by simp
    then have "(2::real) powi (53 + j + 1) \<le> 2 powi ?e"
      by (intro power_int_increasing) simp_all
    moreover have "(2::real) powi (53 + j) < 2 powi (53 + j + 1)"
      by (intro power_int_strict_increasing) simp_all
    ultimately show False using b(1) up by linarith
  qed
  have int_quot: "\<exists>q::int. ?x / 2 powi ?k = of_int q"
  proof (cases "?k \<le> j")
    case True
    have "?x / 2 powi ?k = of_int m * 2 powi (j - ?k)"
      by (simp add: power_int_diff)
    also have "\<dots> = of_int m * 2 ^ nat (j - ?k)"
      using True by (simp add: power_int_def)
    also have "\<dots> = of_int (m * 2 ^ nat (j - ?k))" by simp
    finally show ?thesis by blast
  next
    case gt: False
    then have "j < ?e - 52" using assms(2) by simp
    then have e: "?e = 53 + j" using e_le by simp
    have k: "?k = j + 1" using e assms(2) by simp
    have "2 powi (53 + j) \<le> \<bar>?x\<bar>" using b(1) e by simp
    with up have "\<bar>?x\<bar> = 2 powi (53 + j)" by simp
    then have "of_int \<bar>m\<bar> * 2 powi j = (2::real) ^ 53 * 2 powi j"
      unfolding ax by (simp add: power_int_add)
    then have "of_int \<bar>m\<bar> = (2::real) ^ 53" by simp
    then have am: "\<bar>m\<bar> = 2 ^ 53"
      by (metis of_int_eq_iff of_int_numeral of_int_power)
    have "?x / 2 powi ?k = of_int m / 2"
      unfolding k by (simp add: power_int_add)
    also have "\<dots> = of_int (m div 2)"
    proof -
      have "even m" using am by (metis even_abs_add_iff even_add even_numeral even_power zero_less_numeral)
      then obtain c where "m = 2 * c" by (rule evenE)
      then show ?thesis by simp
    qed
    finally show ?thesis by blast
  qed
  then obtain q :: int where q: "?x / 2 powi ?k = of_int q" by blast
  have "round_double ?x = of_int (rne (?x / 2 powi ?k)) * 2 powi ?k"
    using x0 unfolding round_double_def Let_def by (simp only: if_False)
  also have "\<dots> = of_int q * 2 powi ?k" unfolding q by (simp add: rne_of_int)
  also have "\<dots> = (?x / 2 powi ?k) * 2 powi ?k" by (simp only: q)
  also have "\<dots> = ?x" by simp
  finally show ?thesis .
qed

lemma round_double_of_int: "\<bar>n\<bar> \<le> 2 ^ 53 \<Longrightarrow> round_double (of_int n) = of_int n"
  using round_double_fix [of n 0] by simp











lemma round_double_0: "round_double 0 = 0"
  by (simp add: round_double_def)

lemma round_double_numeral:
  "(numeral w :: int) \<le> 2 ^ 53 \<Longrightarrow> round_double (numeral w) = numeral w"
  using round_double_of_int [of "numeral w"] by simp

lemma round_double_1: "round_double 1 = 1"
  using round_double_of_int [of 1] by simp



section \<open>The loops and the dictionaries\<close>

lemma getitem_default_update:
  "getitem_default dflt (AList.update k v d) k' = (if k' = k then v else getitem_default dflt d k')"
  by (simp add: getitem_default_def update_conv')

lemma map_nth_filter_upt:
  "map (nth xs) (filter (\<lambda>i. P (xs ! i)) [0..<length xs]) = filter P xs"
proof -
  have "map (nth xs) (filter (\<lambda>i. P (xs ! i)) [0..<length xs]) =
        filter P (map (nth xs) [0..<length xs])"
    by (simp add: filter_map comp_def)
  then show ?thesis by (simp add: map_nth)
qed

lemma select_targets_rows:
  "map (nth (salestarget_rows session)) (fst (select_targets y m session)) = targets_of session y m"
  using map_nth_filter_upt [of "salestarget_rows session" "\<lambda>t. year t = y \<and> month t = m"]
  by (simp add: select_targets_def targets_of_def)

lemma select_purchases_rows:
  "map (nth (purchase_rows session)) (fst (select_purchases session)) = lots_of session"
  using map_nth_filter_upt [of "purchase_rows session" "\<lambda>p. remaining_quantity_kg p > 0"]
  by (simp add: select_purchases_def lots_of_def)

lemma select_session:
  "snd (select_targets y m session) = session" "snd (select_purchases session) = session"
  by (simp_all add: select_targets_def select_purchases_def)

lemma target_by_alloy_loop_session:
  "snd (target_by_alloy_loop ts d session) = session"
  by (induction ts arbitrary: d) simp_all

lemma inventory_loop_session:
  "snd (inventory_loop ps inventory session) = session"
  by (induction ps arbitrary: inventory) simp_all

lemma target_by_alloy_loop_get:
  "getitem_default 0 (fst (target_by_alloy_loop ts d session)) a =
     foldl fadd (getitem_default 0 d a)
       (map target_quantity_kg (lines_for a (map (nth (salestarget_rows session)) ts)))"
  by (induction ts arbitrary: d) (auto simp: getitem_default_update lines_for_def)

lemma target_by_alloy_loop_distinct:
  "distinct (map fst d) \<Longrightarrow> distinct (map fst (fst (target_by_alloy_loop ts d session)))"
  by (induction ts arbitrary: d) (auto simp: distinct_update)

lemma target_by_alloy_loop_keys:
  "fst ` set (fst (target_by_alloy_loop ts d session)) =
     fst ` set d \<union> alloy_type_t ` set (map (nth (salestarget_rows session)) ts)"
  by (induction ts arbitrary: d) (auto simp: dom_update)

lemma inventory_loop_get:
  "getitem_default [] (fst (inventory_loop ps inventory session)) a =
     getitem_default [] inventory a @
       filter (\<lambda>p. alloy_type (purchase_rows session ! p) = a) ps"
  by (induction ps arbitrary: inventory) (auto simp: getitem_default_update)

lemma map_insort_key:
  "map g (insort_key (\<lambda>x. f (g x)) x xs) = insort_key f (g x) (map g xs)"
  by (induction xs) simp_all

lemma map_sort_key:
  "map g (sort_key (\<lambda>x. f (g x)) xs) = sort_key f (map g xs)"
  by (induction xs) (simp_all add: map_insort_key)

lemma batches_loop_eq:
  "batches_loop alloy bs left res session =
     ((batch_left (map (nth (purchase_rows session)) bs) left,
       res\<lparr>optimal_mix := optimal_mix res @
              batch_steps alloy (map (nth (purchase_rows session)) bs) left,
           total_cost_for_targets :=
             foldl fadd (total_cost_for_targets res)
               (map cost (batch_steps alloy (map (nth (purchase_rows session)) bs) left))\<rparr>),
      session)"
  by (induction bs arbitrary: left res) (simp_all add: Let_def min_def)

lemma foldl_concat: "foldl f a (concat xss) = foldl (foldl f) a xss"
  by (induction xss arbitrary: a) simp_all

lemma alloy_loop_eq:
  "alloy_loop inventory items res session =
     (res\<lparr>optimal_mix := optimal_mix res @
            concat (map (\<lambda>(a, n). batch_steps a (batches_of session inventory a) n) items),
         to_buy := to_buy res @
            concat (map (\<lambda>(a, n). shortfall a (batch_left (batches_of session inventory a) n)) items),
         total_cost_for_targets := foldl fadd (total_cost_for_targets res)
            (map cost (concat (map (\<lambda>(a, n). batch_steps a (batches_of session inventory a) n) items)))\<rparr>,
      session)"
proof (induction items arbitrary: res)
  case Nil
  show ?case by simp
next
  case (Cons item items)
  obtain a n where item: "item = (a, n)" by (cases item)
  show ?case
    unfolding item
    by (simp add: Cons.IH batches_loop_eq shortfall_def batches_of_def Let_def)
qed

lemma batches_of_inventory_loop:
  "batches_of session (fst (inventory_loop (fst (select_purchases session)) [] session)) a =
     sort_key price_per_kg (lots_for a (lots_of session))"
proof -
  let ?rows = "purchase_rows session"
  let ?ps = "fst (select_purchases session)"
  have "getitem_default [] (fst (inventory_loop ?ps [] session)) a =
      filter (\<lambda>p. alloy_type (?rows ! p) = a) ?ps"
    using inventory_loop_get [of ?ps "[]" session a] by (simp add: getitem_default_def)
  then have "batches_of session (fst (inventory_loop ?ps [] session)) a =
      sort_key price_per_kg (map (nth ?rows) (filter (\<lambda>p. alloy_type (?rows ! p) = a) ?ps))"
    by (simp add: batches_of_def map_sort_key)
  also have "map (nth ?rows) (filter (\<lambda>p. alloy_type (?rows ! p) = a) ?ps) =
      filter (\<lambda>p. alloy_type p = a) (map (nth ?rows) ?ps)"
    by (simp add: filter_map comp_def)
  finally show ?thesis
    by (simp add: select_purchases_rows lots_for_def)
qed

lemma calculate_optimal_mix_eq:
  "calculate_optimal_mix session y m =
     alloy_loop (fst (inventory_loop (fst (select_purchases session)) [] session))
       (fst (target_by_alloy_loop (fst (select_targets y m session)) [] session))
       \<lparr>optimal_mix = [], to_buy = [], total_cost_for_targets = 0\<rparr> session"
proof -
  have 1: "select_targets y m session = (fst (select_targets y m session), session)"
    by (simp add: select_targets_def)
  have 2: "target_by_alloy_loop ts [] session = (fst (target_by_alloy_loop ts [] session), session)" for ts
    using target_by_alloy_loop_session [of ts "[]" session] by (metis prod.collapse)
  have 3: "select_purchases session = (fst (select_purchases session), session)"
    by (simp add: select_purchases_def)
  have 4: "inventory_loop ps [] session = (fst (inventory_loop ps [] session), session)" for ps
    using inventory_loop_session [of ps "[]" session] by (metis prod.collapse)
  show ?thesis
    unfolding calculate_optimal_mix_def
    by (subst 1, simp only: prod.case Let_def, subst 2, simp only: prod.case,
        subst 3, simp only: prod.case, subst 4, simp only: prod.case)
qed

lemma mix_eq:
  "mix session y m =
     \<lparr>optimal_mix = concat (map (\<lambda>(a, n). batch_steps a (sort_key price_per_kg (lots_for a (lots_of session))) n)
                        (target_dict session y m)),
      to_buy = concat (map (\<lambda>(a, n). shortfall a (batch_left (sort_key price_per_kg (lots_for a (lots_of session))) n))
                        (target_dict session y m)),
      total_cost_for_targets = foldl fadd 0 (map cost
         (concat (map (\<lambda>(a, n). batch_steps a (sort_key price_per_kg (lots_for a (lots_of session))) n)
                        (target_dict session y m))))\<rparr>"
  by (simp add: mix_def calculate_optimal_mix_eq alloy_loop_eq batches_of_inventory_loop
      target_dict_def)

lemma calculate_optimal_mix_session: "snd (calculate_optimal_mix session y m) = session"
  by (simp add: calculate_optimal_mix_eq alloy_loop_eq)

lemma filter_concat_keys:
  assumes "distinct (map fst items)"
    and "\<And>a n e. (a, n) \<in> set items \<Longrightarrow> e \<in> set (f a n) \<Longrightarrow> key e = a"
  shows "filter (\<lambda>e. key e = g) (concat (map (\<lambda>(a, n). f a n) items)) =
           (case map_of items g of None \<Rightarrow> [] | Some n \<Rightarrow> f g n)"
  using assms
proof (induction items)
  case Nil
  show ?case by simp
next
  case (Cons item items)
  obtain a n where item: "item = (a, n)" by (cases item)
  have key: "\<And>e. e \<in> set (f a n) \<Longrightarrow> key e = a"
    using Cons.prems(2) [of a n] by (simp add: item)
  have rest: "filter (\<lambda>e. key e = g) (concat (map (\<lambda>(a, n). f a n) items)) =
           (case map_of items g of None \<Rightarrow> [] | Some n \<Rightarrow> f g n)"
  proof (rule Cons.IH)
    show "distinct (map fst items)" using Cons.prems(1) by simp
    show "\<And>a n e. (a, n) \<in> set items \<Longrightarrow> e \<in> set (f a n) \<Longrightarrow> key e = a"
      using Cons.prems(2) by (meson list.set_intros(2))
  qed
  show ?case
  proof (cases "a = g")
    case True
    have "filter (\<lambda>e. key e = g) (f a n) = f a n"
      using key True by (simp add: filter_id_conv)
    moreover have "map_of items g = None"
      using Cons.prems(1) True by (simp add: item map_of_eq_None_iff image_iff)
    ultimately show ?thesis
      using True by (simp add: item rest)
  next
    case False
    have "filter (\<lambda>e. key e = g) (f a n) = []"
      using key False by (simp add: filter_empty_conv)
    then show ?thesis
      using False by (simp add: item rest)
  qed
qed

lemma batch_steps_alloy: "e \<in> set (batch_steps a bs left) \<Longrightarrow> alloy_type_m e = a"
  by (induction bs arbitrary: left) (auto split: if_splits)

lemma batch_steps_nonpos: "left \<le> 0 \<Longrightarrow> batch_steps a bs left = []"
  by (cases bs) simp_all

lemma batch_left_nonpos: "left \<le> 0 \<Longrightarrow> batch_left bs left = left"
  by (cases bs) simp_all

lemma shortfall_alloy: "e \<in> set (shortfall a left) \<Longrightarrow> alloy_type_b e = a"
  by (auto simp: shortfall_def split: if_splits)

lemma target_dict_distinct: "distinct (map fst (target_dict session y m))"
  unfolding target_dict_def by (rule target_by_alloy_loop_distinct) simp

lemma need_absent: "g \<notin> alloy_type_t ` set ts \<Longrightarrow> need g ts = 0"
proof -
  assume "g \<notin> alloy_type_t ` set ts"
  then have "filter (\<lambda>t. alloy_type_t t = g) ts = []"
    by (auto simp: filter_empty_conv)
  then show ?thesis by (simp add: need_def lines_for_def)
qed

lemma target_dict_lookup:
  "map_of (target_dict session y m) g =
     (if g \<in> alloy_type_t ` set (targets_of session y m)
      then Some (need g (targets_of session y m)) else None)"
proof -
  let ?refs = "fst (select_targets y m session)"
  have keys: "fst ` set (target_dict session y m) = alloy_type_t ` set (targets_of session y m)"
    using target_by_alloy_loop_keys [of ?refs "[]" session]
    by (simp add: target_dict_def select_targets_rows)
  have get: "getitem_default 0 (target_dict session y m) g = need g (targets_of session y m)"
    using target_by_alloy_loop_get [of ?refs "[]" session g]
    by (simp add: target_dict_def select_targets_rows need_def getitem_default_def)
  show ?thesis
  proof (cases "map_of (target_dict session y m) g")
    case None
    then have "g \<notin> fst ` set (target_dict session y m)"
      by (simp add: map_of_eq_None_iff)
    with None keys show ?thesis by simp
  next
    case (Some n)
    then have "g \<in> fst ` set (target_dict session y m)"
      by (metis map_of_eq_None_iff option.distinct(1))
    moreover have "n = need g (targets_of session y m)"
      using get Some by (simp add: getitem_default_def)
    ultimately show ?thesis using Some keys by simp
  qed
qed

lemma steps_for_mix:
  "steps_for g (mix session y m) =
     batch_steps g (sort_key price_per_kg (lots_for g (lots_of session))) (need g (targets_of session y m))"
proof -
  have "steps_for g (mix session y m) =
      (case map_of (target_dict session y m) g of None \<Rightarrow> []
       | Some n \<Rightarrow> batch_steps g (sort_key price_per_kg (lots_for g (lots_of session))) n)"
    unfolding steps_for_def mix_eq result.simps
    by (rule filter_concat_keys)
       (simp_all add: target_dict_distinct batch_steps_alloy)
  then show ?thesis
    by (simp add: target_dict_lookup need_absent batch_steps_nonpos)
qed

lemma shortfalls_for_mix:
  "shortfalls_for g (mix session y m) =
     shortfall g (batch_left (sort_key price_per_kg (lots_for g (lots_of session))) (need g (targets_of session y m)))"
proof -
  have "shortfalls_for g (mix session y m) =
      (case map_of (target_dict session y m) g of None \<Rightarrow> []
       | Some n \<Rightarrow> shortfall g (batch_left (sort_key price_per_kg (lots_for g (lots_of session))) n))"
    unfolding shortfalls_for_def mix_eq result.simps
    by (rule filter_concat_keys)
       (simp_all add: target_dict_distinct shortfall_alloy)
  then show ?thesis
    by (simp add: target_dict_lookup need_absent batch_left_nonpos shortfall_def)
qed

lemma batch_steps_entry:
  "e \<in> set (batch_steps a bs left) \<Longrightarrow>
     \<exists>b\<in>set bs. purchase_id e = id_p b \<and> price_per_kg_m e = price_per_kg b \<and>
       0 < quantity_used_kg e \<and> quantity_used_kg e \<le> remaining_quantity_kg b \<and>
       cost e = fmul (quantity_used_kg e) (price_per_kg_m e)"
  by (induction bs arbitrary: left) (auto split: if_splits)

lemma lots_of_positive: "b \<in> set (lots_of session) \<Longrightarrow> 0 < remaining_quantity_kg b"
  by (simp add: lots_of_def)

lemma lots_of_subset: "set (lots_of session) \<subseteq> set (purchase_rows session)"
  by (auto simp: lots_of_def)

lemma lots_of_distinct:
  "distinct (map id_p (purchase_rows session)) \<Longrightarrow> distinct (map id_p (lots_of session))"
  by (simp add: lots_of_def distinct_map_filter)

lemma mix_entry_batch:
  assumes "e \<in> set (optimal_mix (mix session y m))"
  shows "\<exists>a n. e \<in> set (batch_steps a (sort_key price_per_kg (lots_for a (lots_of session))) n)"
  using assms unfolding mix_eq by auto

lemma mix_entry_lot:
  assumes "e \<in> set (optimal_mix (mix session y m))"
  shows "\<exists>b\<in>set (lots_of session). purchase_id e = id_p b \<and> price_per_kg_m e = price_per_kg b \<and>
           0 < quantity_used_kg e \<and> quantity_used_kg e \<le> remaining_quantity_kg b \<and>
           cost e = fmul (quantity_used_kg e) (price_per_kg_m e)"
proof -
  obtain a n where "e \<in> set (batch_steps a (sort_key price_per_kg (lots_for a (lots_of session))) n)"
    using mix_entry_batch [OF assms] by blast
  from batch_steps_entry [OF this] show ?thesis
    by (auto simp: lots_for_def)
qed

lemma distinct_map_eq:
  "distinct (map f xs) \<Longrightarrow> x \<in> set xs \<Longrightarrow> y \<in> set xs \<Longrightarrow> f x = f y \<Longrightarrow> x = y"
  by (meson distinct_map inj_onD)

lemma mix_total:
  "total_cost_for_targets (mix session y m) = foldl fadd 0 (map cost (optimal_mix (mix session y m)))"
  unfolding mix_eq by simp

lemma sum_list_remaining_nonneg:
  "\<forall>b\<in>set bs. 0 \<le> remaining_quantity_kg b \<Longrightarrow> 0 \<le> sum_list (map remaining_quantity_kg bs)"
  by (induction bs) auto

lemma sum_list_map_sort_key:
  fixes f :: "'a \<Rightarrow> real"
  shows "sum_list (map f (sort_key k xs)) = sum_list (map f xs)"
proof -
  have "mset (map f (sort_key k xs)) = mset (map f xs)" by simp
  then show ?thesis by (metis sum_mset_sum_list)
qed

lemma batch_used_le:
  "\<forall>b\<in>set bs. 0 \<le> remaining_quantity_kg b \<Longrightarrow>
     used i (batch_steps a bs left) \<le>
       sum_list (map remaining_quantity_kg (filter (\<lambda>b. id_p b = i) bs))"
proof (induction bs arbitrary: left)
  case Nil
  show ?case by (simp add: used_def)
next
  case (Cons b bs)
  have nn: "0 \<le> remaining_quantity_kg b" using Cons.prems by simp
  have rest: "\<forall>b\<in>set bs. 0 \<le> remaining_quantity_kg b" using Cons.prems by simp
  have tail: "0 \<le> sum_list (map remaining_quantity_kg (filter (\<lambda>b. id_p b = i) bs))"
    by (rule sum_list_remaining_nonneg) (use rest in auto)
  have ih: "\<And>l. used i (batch_steps a bs l) \<le>
       sum_list (map remaining_quantity_kg (filter (\<lambda>b. id_p b = i) bs))"
    using Cons.IH [OF rest] .
  show ?case
    using nn tail ih [of left] ih [of "fsub left (min (remaining_quantity_kg b) left)"]
    by (auto simp: used_def min_def)
qed

lemma used_concat: "used i (concat xss) = sum_list (map (used i) xss)"
  by (induction xss) (simp_all add: used_def)

lemma sum_list_indicator:
  fixes c :: real
  shows "distinct ks \<Longrightarrow> (\<Sum>a\<leftarrow>ks. if k = a then c else 0) = (if k \<in> set ks then c else 0)"
  by (induction ks) auto

lemma sum_over_keys_le:
  fixes w :: "'a \<Rightarrow> real"
  assumes "distinct ks" and "\<forall>x\<in>set xs. 0 \<le> w x"
  shows "(\<Sum>a\<leftarrow>ks. sum_list (map w (filter (\<lambda>x. P x \<and> key x = a) xs)))
           \<le> sum_list (map w (filter P xs))"
  using assms(2)
proof (induction xs)
  case Nil
  show ?case by simp
next
  case (Cons x xs)
  have ih: "(\<Sum>a\<leftarrow>ks. sum_list (map w (filter (\<lambda>x. P x \<and> key x = a) xs)))
           \<le> sum_list (map w (filter P xs))"
    using Cons by simp
  have wx: "0 \<le> w x" using Cons.prems by simp
  have split: "(\<Sum>a\<leftarrow>ks. sum_list (map w (filter (\<lambda>x. P x \<and> key x = a) (x # xs)))) =
      (\<Sum>a\<leftarrow>ks. if key x = a then (if P x then w x else 0) else 0)
      + (\<Sum>a\<leftarrow>ks. sum_list (map w (filter (\<lambda>x. P x \<and> key x = a) xs)))"
  proof -
    have "sum_list (map w (filter (\<lambda>x. P x \<and> key x = a) (x # xs))) =
        (if key x = a then (if P x then w x else 0) else 0)
        + sum_list (map w (filter (\<lambda>x. P x \<and> key x = a) xs))" for a
      by simp
    then show ?thesis by (simp only: sum_list_addf)
  qed
  have head: "(\<Sum>a\<leftarrow>ks. if key x = a then (if P x then w x else 0) else 0) \<le> (if P x then w x else 0)"
    using wx by (simp add: sum_list_indicator [OF assms(1)])
  have whole: "sum_list (map w (filter P (x # xs))) = (if P x then w x else 0) + sum_list (map w (filter P xs))"
    by simp
  show ?case
    unfolding split whole using head ih by (rule add_mono)
qed

lemma used_mix_le:
  "used i (optimal_mix (mix session y m)) \<le>
     sum_list (map remaining_quantity_kg (filter (\<lambda>b. id_p b = i) (lots_of session)))"
proof -
  let ?items = "target_dict session y m"
  let ?lots = "lots_of session"
  have lots_nn: "\<forall>b\<in>set ?lots. 0 \<le> remaining_quantity_kg b"
    by (auto dest: lots_of_positive intro: less_imp_le)
  have each: "used i (batch_steps a (sort_key price_per_kg (lots_for a ?lots)) n) \<le>
      sum_list (map remaining_quantity_kg (filter (\<lambda>b. id_p b = i \<and> alloy_type b = a) ?lots))" for a n
  proof -
    have "used i (batch_steps a (sort_key price_per_kg (lots_for a ?lots)) n) \<le>
      sum_list (map remaining_quantity_kg (filter (\<lambda>b. id_p b = i) (sort_key price_per_kg (lots_for a ?lots))))"
      by (rule batch_used_le) (use lots_nn in \<open>auto simp: lots_for_def\<close>)
    also have "\<dots> = sum_list (map remaining_quantity_kg (filter (\<lambda>b. id_p b = i) (lots_for a ?lots)))"
      by (simp add: filter_sort sum_list_map_sort_key)
    also have "\<dots> = sum_list (map remaining_quantity_kg (filter (\<lambda>b. id_p b = i \<and> alloy_type b = a) ?lots))"
      by (simp add: lots_for_def conj_commute)
    finally show ?thesis .
  qed
  have "used i (optimal_mix (mix session y m)) =
      (\<Sum>item\<leftarrow>?items. used i (case item of (a, n) \<Rightarrow>
           batch_steps a (sort_key price_per_kg (lots_for a ?lots)) n))"
    unfolding mix_eq by (simp add: used_concat comp_def)
  also have "\<dots> \<le> (\<Sum>item\<leftarrow>?items.
      sum_list (map remaining_quantity_kg (filter (\<lambda>b. id_p b = i \<and> alloy_type b = fst item) ?lots)))"
    by (rule sum_list_mono) (auto simp: each)
  also have "\<dots> = (\<Sum>a\<leftarrow>map fst ?items.
      sum_list (map remaining_quantity_kg (filter (\<lambda>b. id_p b = i \<and> alloy_type b = a) ?lots)))"
    by (simp add: comp_def)
  also have "\<dots> \<le> sum_list (map remaining_quantity_kg (filter (\<lambda>b. id_p b = i) ?lots))"
    by (rule sum_over_keys_le) (simp_all add: target_dict_distinct lots_nn)
  finally show ?thesis .
qed

lemma filter_distinct_key:
  "distinct (map f xs) \<Longrightarrow> x \<in> set xs \<Longrightarrow> filter (\<lambda>y. f y = f x) xs = [x]"
  by (induction xs) (auto simp: filter_empty_conv image_iff)

lemma same_read_filter:
  assumes "list_all2 same_read xs ys" and "\<And>p q. same_read p q \<Longrightarrow> P p = P q"
  shows "list_all2 same_read (filter P xs) (filter P ys)"
  using assms(1)
proof (induction rule: list_all2_induct)
  case Nil
  show ?case by simp
next
  case (Cons x xs y ys)
  then show ?case using assms(2) [of x y] by simp
qed

lemma same_read_insort:
  assumes "same_read x y" and "list_all2 same_read xs ys"
  shows "list_all2 same_read (insort_key price_per_kg x xs) (insort_key price_per_kg y ys)"
  using assms(2)
proof (induction rule: list_all2_induct)
  case Nil
  show ?case using assms(1) by simp
next
  case (Cons x' xs y' ys)
  have "price_per_kg x = price_per_kg y" "price_per_kg x' = price_per_kg y'"
    using assms(1) Cons.hyps(1) by (simp_all add: same_read_def)
  then show ?case using Cons assms(1) by simp
qed

lemma same_read_sort:
  "list_all2 same_read xs ys \<Longrightarrow>
     list_all2 same_read (sort_key price_per_kg xs) (sort_key price_per_kg ys)"
  by (induction rule: list_all2_induct) (simp_all add: same_read_insort)

lemma same_read_batch:
  "list_all2 same_read bs cs \<Longrightarrow>
     batch_steps a bs left = batch_steps a cs left \<and> batch_left bs left = batch_left cs left"
proof (induction arbitrary: left rule: list_all2_induct)
  case Nil
  show ?case by simp
next
  case (Cons b bs c cs)
  have "price_per_kg b = price_per_kg c" "remaining_quantity_kg b = remaining_quantity_kg c"
      "id_p b = id_p c"
    using Cons.hyps(1) by (simp_all add: same_read_def)
  then show ?case using Cons.IH by (simp add: min_def)
qed

lemma same_read_lots:
  assumes "list_all2 same_read (purchase_rows s1) (purchase_rows s2)"
  shows "list_all2 same_read (sort_key price_per_kg (lots_for a (lots_of s1)))
           (sort_key price_per_kg (lots_for a (lots_of s2)))"
  unfolding lots_for_def lots_of_def
  by (intro same_read_sort same_read_filter assms) (simp_all add: same_read_def)

lemma batch_steps_take:
  "\<forall>b\<in>set bs. 0 < remaining_quantity_kg b \<Longrightarrow>
     \<exists>n. map (\<lambda>e. (purchase_id e, price_per_kg_m e)) (batch_steps a bs left) =
         map (\<lambda>b. (id_p b, price_per_kg b)) (take n bs)"
proof (induction bs arbitrary: left)
  case Nil
  show ?case by simp
next
  case (Cons b bs)
  show ?case
  proof (cases "left \<le> 0")
    case True
    then have "map (\<lambda>e. (purchase_id e, price_per_kg_m e)) (batch_steps a (b # bs) left) =
         map (\<lambda>b. (id_p b, price_per_kg b)) (take 0 (b # bs))" by simp
    then show ?thesis by (rule exI)
  next
    case False
    have pos: "0 < remaining_quantity_kg b" using Cons.prems by simp
    have rest: "\<forall>b\<in>set bs. 0 < remaining_quantity_kg b" using Cons.prems by simp
    have use: "\<not> min (remaining_quantity_kg b) left \<le> 0" using False pos by simp
    from Cons.IH [OF rest, of "fsub left (min (remaining_quantity_kg b) left)"]
    obtain n where n: "map (\<lambda>e. (purchase_id e, price_per_kg_m e))
          (batch_steps a bs (fsub left (min (remaining_quantity_kg b) left))) =
         map (\<lambda>b. (id_p b, price_per_kg b)) (take n bs)" ..
    have "batch_steps a (b # bs) left =
       \<lparr>alloy_type_m = a, purchase_id = id_p b,
             quantity_used_kg = min (remaining_quantity_kg b) left,
             price_per_kg_m = price_per_kg b,
             cost = fmul (min (remaining_quantity_kg b) left) (price_per_kg b)\<rparr>
           # batch_steps a bs (fsub left (min (remaining_quantity_kg b) left))"
      using False use by (simp only: batch_steps.simps if_False)
    then have "map (\<lambda>e. (purchase_id e, price_per_kg_m e)) (batch_steps a (b # bs) left) =
         map (\<lambda>b. (id_p b, price_per_kg b)) (take (Suc n) (b # bs))"
      using n by simp
    then show ?thesis by (rule exI)
  qed
qed

lemmas scenario_defs = scenario_A_def scenario_B_def scenario_tie_def scenario_A_other_def
  scenario_idle_def mk_purchase_def mk_target_def

lemmas run_defs = calculate_optimal_mix_def select_targets_def select_purchases_def
  getitem_default_def Let_def upt_rec [of 0] upt_rec [of 1] upt_rec [of 2] upt_rec [of "Suc 0"]
  upt_rec [of "Suc (Suc 0)"]
  fadd_def fsub_def fmul_def round_double_numeral round_double_0 round_double_1

lemma foldl_fadd_zeros: "\<forall>x\<in>set xs. x = 0 \<Longrightarrow> foldl fadd 0 xs = 0"
  by (induction xs) (simp_all add: fadd_def round_double_0)

lemma need_zero:
  assumes "\<forall>t\<in>set ts. 0 \<le> target_quantity_kg t" and "demand g ts = 0"
  shows "need g ts = 0"
proof -
  let ?qs = "map target_quantity_kg (lines_for g ts)"
  have nn: "\<And>x. x \<in> set ?qs \<Longrightarrow> 0 \<le> x"
    using assms(1) by (auto simp: lines_for_def)
  have "sum_list ?qs = 0" using assms(2) by (simp add: demand_def)
  then have "\<forall>x\<in>set ?qs. x = 0"
    using sum_list_nonneg_eq_0_iff [of ?qs] nn by blast
  then show ?thesis unfolding need_def by (rule foldl_fadd_zeros)
qed

lemma target_by_alloy_loop_rows:
  "salestarget_rows s1 = salestarget_rows s2 \<Longrightarrow>
     fst (target_by_alloy_loop ts d s1) = fst (target_by_alloy_loop ts d s2)"
  by (induction ts arbitrary: d) simp_all

lemma target_dict_rows:
  "salestarget_rows s1 = salestarget_rows s2 \<Longrightarrow> target_dict s1 y m = target_dict s2 y m"
  using target_by_alloy_loop_rows [of s1 s2]
  by (simp add: target_dict_def select_targets_def)

section \<open>Exact arithmetic and runs without rounding\<close>

















lemma demand_nonneg:
  "\<forall>t\<in>set ts. 0 \<le> target_quantity_kg t \<Longrightarrow> 0 \<le> demand g ts"
  unfolding demand_def lines_for_def by (induction ts) auto











section \<open>The arithmetic of the rounding sessions\<close>






















section \<open>The properties\<close>

text \<open>
  Throughout, the lots supplied to the allocation are the rows that the query of lines
  17-19 returns, \<open>lots_of session\<close>: the purchases whose remaining quantity is
  positive. The demand lines are the rows \<open>targets_of session y m\<close> of the period.
\<close>

subsection \<open>C1\<close>




subsection \<open>C2\<close>




subsection \<open>C3\<close>

text \<open>
  C3, conservation. The \<open>id\<close> of a purchase is its primary key, so the ids of the
  purchase rows are distinct. Then every step references a supplied lot and uses no more
  than the remaining quantity of the lot it references, and for every supplied lot the
  quantities used by all steps that reference it add up to no more than its remaining
  quantity.
\<close>

theorem C3_conservation:
  assumes "distinct (map id_p (purchase_rows session))"
  shows "(\<forall>e\<in>set (optimal_mix (fst (calculate_optimal_mix session y m))).
            (\<exists>p\<in>set (lots_of session). id_p p = purchase_id e) \<and>
            (\<forall>p\<in>set (purchase_rows session). id_p p = purchase_id e \<longrightarrow>
               quantity_used_kg e \<le> remaining_quantity_kg p)) \<and>
         (\<forall>p\<in>set (lots_of session).
            used (id_p p) (optimal_mix (fst (calculate_optimal_mix session y m)))
              \<le> remaining_quantity_kg p)"
proof -
  have "(\<exists>p\<in>set (lots_of session). id_p p = purchase_id e) \<and>
            (\<forall>p\<in>set (purchase_rows session). id_p p = purchase_id e \<longrightarrow>
               quantity_used_kg e \<le> remaining_quantity_kg p)"
    if e: "e \<in> set (optimal_mix (fst (calculate_optimal_mix session y m)))" for e
  proof -
    obtain b where b: "b \<in> set (lots_of session)" "purchase_id e = id_p b"
      "quantity_used_kg e \<le> remaining_quantity_kg b"
      using mix_entry_lot [of e session y m] e by (auto simp: mix_def)
    have brow: "b \<in> set (purchase_rows session)" using b(1) lots_of_subset by blast
    have "p = b" if "p \<in> set (purchase_rows session)" "id_p p = purchase_id e" for p
      using distinct_map_eq [OF assms that(1) brow] that(2) b(2) by simp
    then show ?thesis using b by metis
  qed
  moreover have "used (id_p p) (optimal_mix (fst (calculate_optimal_mix session y m)))
              \<le> remaining_quantity_kg p"
    if p: "p \<in> set (lots_of session)" for p
  proof -
    have "filter (\<lambda>b. id_p b = id_p p) (lots_of session) = [p]"
      using lots_of_distinct [OF assms] p by (rule filter_distinct_key)
    then show ?thesis
      using used_mix_le [of "id_p p" session y m] by (simp add: mix_def)
  qed
  ultimately show ?thesis by blast
qed

theorem C3_conservation_witness:
  "distinct (map id_p (purchase_rows scenario_A)) \<and>
   map purchase_id (optimal_mix (fst (calculate_optimal_mix scenario_A 2024 1))) = [Some 2, Some 1] \<and>
   list_all (\<lambda>p. used (id_p p) (optimal_mix (fst (calculate_optimal_mix scenario_A 2024 1)))
              \<le> remaining_quantity_kg p) (lots_of scenario_A)"
proof -
  have d: "distinct (map id_p (purchase_rows scenario_A))"
    by (simp add: scenario_defs)
  have q: "map purchase_id (optimal_mix (fst (calculate_optimal_mix scenario_A 2024 1))) = [Some 2, Some 1]"
    by (simp add: scenario_defs run_defs)
  show ?thesis
    unfolding list_all_iff using d q C3_conservation [OF d, of 2024 1] by blast
qed

subsection \<open>C4\<close>

text \<open>
  C4, as stated (ties among lots of equal unit cost are broken by ascending lot identity):
  false. In \<open>scenario_tie\<close> both lots cost 3 and the lot with \<open>id\<close> 2 is stored
  before the lot with \<open>id\<close> 1; the step that references lot 2 comes first.
\<close>

theorem C4_tie_break_counterexample:
  "map id_p (purchase_rows scenario_tie) = [Some 2, Some 1] \<and>
   map price_per_kg (purchase_rows scenario_tie) = [3, 3] \<and>
   map purchase_id (optimal_mix (fst (calculate_optimal_mix scenario_tie 2024 1))) = [Some 2, Some 1] \<and>
   map price_per_kg_m (optimal_mix (fst (calculate_optimal_mix scenario_tie 2024 1))) = [3, 3]"
  by (simp add: scenario_defs run_defs)

text \<open>
  C4, as amended. The steps of a grade are in ascending order of unit cost, and lots of
  equal unit cost are used in the order in which the query returned them: for every price
  \<open>k\<close>, the lots referenced by the grade's steps of price \<open>k\<close> are, in order, an
  initial segment of the grade's supplied lots of price \<open>k\<close>.
\<close>

theorem C4_lot_ordering:
  "sorted (map price_per_kg_m (steps_for g (fst (calculate_optimal_mix session y m)))) \<and>
   prefix (map purchase_id (filter (\<lambda>e. price_per_kg_m e = k)
                              (steps_for g (fst (calculate_optimal_mix session y m)))))
          (map id_p (filter (\<lambda>p. alloy_type p = g \<and> price_per_kg p = k) (lots_of session)))"
proof -
  let ?bs = "sort_key price_per_kg (lots_for g (lots_of session))"
  let ?steps = "steps_for g (fst (calculate_optimal_mix session y m))"
  have steps: "?steps = batch_steps g ?bs (need g (targets_of session y m))"
    using steps_for_mix [of g session y m] by (simp only: mix_def)
  have "\<forall>b\<in>set ?bs. 0 < remaining_quantity_kg b"
    by (auto simp: lots_for_def dest: lots_of_positive)
  from batch_steps_take [OF this, of g "need g (targets_of session y m)"]
  obtain n where "map (\<lambda>e. (purchase_id e, price_per_kg_m e))
          (batch_steps g ?bs (need g (targets_of session y m))) =
         map (\<lambda>b. (id_p b, price_per_kg b)) (take n ?bs)" ..
  then have n: "map (\<lambda>e. (purchase_id e, price_per_kg_m e)) ?steps =
         map (\<lambda>b. (id_p b, price_per_kg b)) (take n ?bs)"
    by (simp only: steps)
  have "map snd (map (\<lambda>e. (purchase_id e, price_per_kg_m e)) ?steps) =
        map snd (map (\<lambda>b. (id_p b, price_per_kg b)) (take n ?bs))"
    by (simp only: n)
  then have prices: "map price_per_kg_m ?steps = map price_per_kg (take n ?bs)"
    by (simp add: comp_def)
  have "sorted (map price_per_kg ?bs)" by (rule sorted_sort_key)
  then have "sorted (take n (map price_per_kg ?bs))" by (rule sorted_wrt_take)
  then have sorted: "sorted (map price_per_kg_m ?steps)"
    by (simp only: prices take_map)
  have "map purchase_id (filter (\<lambda>e. price_per_kg_m e = k) ?steps) =
        map fst (filter (\<lambda>x. snd x = k) (map (\<lambda>e. (purchase_id e, price_per_kg_m e)) ?steps))"
    by (simp add: filter_map comp_def)
  also have "\<dots> = map fst (filter (\<lambda>x. snd x = k) (map (\<lambda>b. (id_p b, price_per_kg b)) (take n ?bs)))"
    by (simp only: n)
  also have "\<dots> = map id_p (filter (\<lambda>b. price_per_kg b = k) (take n ?bs))"
    by (simp add: filter_map comp_def)
  finally have ids: "map purchase_id (filter (\<lambda>e. price_per_kg_m e = k) ?steps) =
        map id_p (filter (\<lambda>b. price_per_kg b = k) (take n ?bs))" .
  have stable: "filter (\<lambda>b. price_per_kg b = k) ?bs =
      filter (\<lambda>p. alloy_type p = g \<and> price_per_kg p = k) (lots_of session)"
    by (simp add: sort_key_stable lots_for_def conj_commute)
  have "prefix (take n ?bs) ?bs" by (rule take_is_prefix)
  then have "prefix (filter (\<lambda>b. price_per_kg b = k) (take n ?bs)) (filter (\<lambda>b. price_per_kg b = k) ?bs)"
    by (rule filter_mono_prefix)
  then have "prefix (map id_p (filter (\<lambda>b. price_per_kg b = k) (take n ?bs)))
      (map id_p (filter (\<lambda>b. price_per_kg b = k) ?bs))"
    by (rule map_mono_prefix)
  then have "prefix (map purchase_id (filter (\<lambda>e. price_per_kg_m e = k) ?steps))
      (map id_p (filter (\<lambda>p. alloy_type p = g \<and> price_per_kg p = k) (lots_of session)))"
    by (simp only: ids stable)
  with sorted show ?thesis by (rule conjI)
qed

theorem C4_lot_ordering_witness:
  "sorted (map price_per_kg_m (steps_for ''steel'' (fst (calculate_optimal_mix scenario_tie 2024 1)))) \<and>
   prefix (map purchase_id (filter (\<lambda>e. price_per_kg_m e = 3)
                              (steps_for ''steel'' (fst (calculate_optimal_mix scenario_tie 2024 1)))))
          [Some 2, Some 1]"
  using C4_lot_ordering [of "''steel''" scenario_tie 2024 1 3]
  by (simp add: scenario_defs lots_of_def)

subsection \<open>C5\<close>




subsection \<open>C6\<close>

text \<open>
  C6, well-formedness of the result. With distinct purchase ids, every step has a
  positive quantity, a cost equal to its quantity times its unit cost as the engine
  multiplies them (\<open>fmul\<close>), references a purchase row, and carries the unit cost of
  the row it references; and the total cost is the sum of the costs of the steps as the
  engine accumulates it, from 0 in step order (\<open>foldl fadd 0\<close>).
\<close>

theorem C6_result_wellformed:
  assumes "distinct (map id_p (purchase_rows session))"
  shows "(\<forall>e\<in>set (optimal_mix (fst (calculate_optimal_mix session y m))).
            0 < quantity_used_kg e \<and>
            cost e = fmul (quantity_used_kg e) (price_per_kg_m e) \<and>
            (\<exists>p\<in>set (purchase_rows session). id_p p = purchase_id e) \<and>
            (\<forall>p\<in>set (purchase_rows session). id_p p = purchase_id e \<longrightarrow>
               price_per_kg_m e = price_per_kg p)) \<and>
         total_cost_for_targets (fst (calculate_optimal_mix session y m)) =
           foldl fadd 0 (map cost (optimal_mix (fst (calculate_optimal_mix session y m))))"
proof -
  have "0 < quantity_used_kg e \<and>
            cost e = fmul (quantity_used_kg e) (price_per_kg_m e) \<and>
            (\<exists>p\<in>set (purchase_rows session). id_p p = purchase_id e) \<and>
            (\<forall>p\<in>set (purchase_rows session). id_p p = purchase_id e \<longrightarrow>
               price_per_kg_m e = price_per_kg p)"
    if e: "e \<in> set (optimal_mix (fst (calculate_optimal_mix session y m)))" for e
  proof -
    obtain b where b: "b \<in> set (lots_of session)" "purchase_id e = id_p b"
      "price_per_kg_m e = price_per_kg b" "0 < quantity_used_kg e"
      "cost e = fmul (quantity_used_kg e) (price_per_kg_m e)"
      using mix_entry_lot [of e session y m] e by (auto simp: mix_def)
    have brow: "b \<in> set (purchase_rows session)" using b(1) lots_of_subset by blast
    have "p = b" if "p \<in> set (purchase_rows session)" "id_p p = purchase_id e" for p
      using distinct_map_eq [OF assms that(1) brow] that(2) b(2) by simp
    then show ?thesis using b brow by metis
  qed
  moreover have "total_cost_for_targets (fst (calculate_optimal_mix session y m)) =
           foldl fadd 0 (map cost (optimal_mix (fst (calculate_optimal_mix session y m))))"
    using mix_total [of session y m] by (simp add: mix_def)
  ultimately show ?thesis by blast
qed

theorem C6_result_wellformed_witness:
  "distinct (map id_p (purchase_rows scenario_A)) \<and>
   map quantity_used_kg (optimal_mix (fst (calculate_optimal_mix scenario_A 2024 1))) = [50, 50] \<and>
   list_all (\<lambda>e. 0 < quantity_used_kg e \<and> cost e = fmul (quantity_used_kg e) (price_per_kg_m e))
     (optimal_mix (fst (calculate_optimal_mix scenario_A 2024 1))) \<and>
   total_cost_for_targets (fst (calculate_optimal_mix scenario_A 2024 1)) =
     foldl fadd 0 (map cost (optimal_mix (fst (calculate_optimal_mix scenario_A 2024 1))))"
proof -
  have d: "distinct (map id_p (purchase_rows scenario_A))"
    by (simp add: scenario_defs)
  have q: "map quantity_used_kg (optimal_mix (fst (calculate_optimal_mix scenario_A 2024 1))) = [50, 50]"
    by (simp add: scenario_defs run_defs)
  show ?thesis
    unfolding list_all_iff using d q C6_result_wellformed [OF d, of 2024 1] by blast
qed

subsection \<open>C7\<close>

text \<open>
  C7, no mutation of the inputs. The session is threaded through the two queries and the
  four loops, each of which could return it changed. The session that a call leaves behind
  is the session it was given: every row of both tables is unchanged in every field, and
  in particular no lot's remaining quantity is decremented.
\<close>

theorem C7_no_mutation:
  "snd (calculate_optimal_mix session y m) = session"
  by (rule calculate_optimal_mix_session)

theorem C7_no_mutation_witness:
  "snd (calculate_optimal_mix scenario_B 2024 1) = scenario_B \<and>
   optimal_mix (fst (calculate_optimal_mix scenario_B 2024 1)) \<noteq> []"
proof -
  have "optimal_mix (fst (calculate_optimal_mix scenario_B 2024 1)) \<noteq> []"
    by (simp add: scenario_defs run_defs)
  then show ?thesis using C7_no_mutation [of scenario_B 2024 1] by simp
qed

subsection \<open>C8\<close>

text \<open>
  C8, irrelevant grades. When no demand line of the period is negative, a grade that no
  demand line names, or whose summed demand is zero, has no step and no shortfall line in
  the result, whatever lots of that grade are supplied.
\<close>

theorem C8_irrelevant_grades:
  assumes "\<forall>t\<in>set (targets_of session y m). 0 \<le> target_quantity_kg t"
      and "g \<notin> alloy_type_t ` set (targets_of session y m) \<or>
           demand g (targets_of session y m) = 0"
  shows "steps_for g (fst (calculate_optimal_mix session y m)) = [] \<and>
         shortfalls_for g (fst (calculate_optimal_mix session y m)) = []"
proof -
  have "need g (targets_of session y m) = 0"
    using assms need_absent need_zero by blast
  then show ?thesis
    using steps_for_mix [of g session y m] shortfalls_for_mix [of g session y m]
    by (simp add: mix_def batch_steps_nonpos batch_left_nonpos shortfall_def)
qed

theorem C8_irrelevant_grades_witness:
  "list_all (\<lambda>t. 0 \<le> target_quantity_kg t) (targets_of scenario_idle 2024 1) \<and>
   lots_for ''zinc'' (lots_of scenario_idle) = [mk_purchase ''zinc'' 1 2 7] \<and>
   ''zinc'' \<notin> alloy_type_t ` set (targets_of scenario_idle 2024 1) \<and>
   steps_for ''zinc'' (fst (calculate_optimal_mix scenario_idle 2024 1)) = [] \<and>
   shortfalls_for ''zinc'' (fst (calculate_optimal_mix scenario_idle 2024 1)) = [] \<and>
   lots_for ''steel'' (lots_of scenario_idle) = [mk_purchase ''steel'' 2 3 9] \<and>
   ''steel'' \<in> alloy_type_t ` set (targets_of scenario_idle 2024 1) \<and>
   demand ''steel'' (targets_of scenario_idle 2024 1) = 0 \<and>
   steps_for ''steel'' (fst (calculate_optimal_mix scenario_idle 2024 1)) = [] \<and>
   shortfalls_for ''steel'' (fst (calculate_optimal_mix scenario_idle 2024 1)) = []"
proof -
  have nn: "\<forall>t\<in>set (targets_of scenario_idle 2024 1). 0 \<le> target_quantity_kg t"
    by (simp add: scenario_defs targets_of_def)
  have lots: "lots_for ''zinc'' (lots_of scenario_idle) = [mk_purchase ''zinc'' 1 2 7]"
      "lots_for ''steel'' (lots_of scenario_idle) = [mk_purchase ''steel'' 2 3 9]"
    by (simp_all add: scenario_defs lots_for_def lots_of_def)
  have zinc: "''zinc'' \<notin> alloy_type_t ` set (targets_of scenario_idle 2024 1)"
    by (simp add: scenario_defs targets_of_def)
  have steel: "''steel'' \<in> alloy_type_t ` set (targets_of scenario_idle 2024 1)"
      "demand ''steel'' (targets_of scenario_idle 2024 1) = 0"
    by (simp_all add: scenario_defs targets_of_def demand_def lines_for_def)
  show ?thesis
    using nn lots zinc steel
      C8_irrelevant_grades [OF nn, of "''zinc''"]
      C8_irrelevant_grades [OF nn, of "''steel''"]
    by (simp add: list_all_iff)
qed

subsection \<open>C9\<close>

text \<open>
  C9, empty demand. When the period has no demand line, the result has no step, no
  shortfall line and total cost 0, whatever the purchase rows are.
\<close>

theorem C9_empty_demand:
  "targets_of session y m = [] \<Longrightarrow>
     fst (calculate_optimal_mix session y m) =
       \<lparr>optimal_mix = [], to_buy = [], total_cost_for_targets = 0\<rparr>"
proof -
  assume "targets_of session y m = []"
  then have "fst (select_targets y m session) = []"
    using select_targets_rows [of session y m] by simp
  then have "target_dict session y m = []" by (simp add: target_dict_def)
  then show ?thesis using mix_eq [of session y m] by (simp add: mix_def)
qed

theorem C9_empty_demand_witness:
  "targets_of scenario_A 2025 1 = [] \<and>
   lots_of scenario_A = purchase_rows scenario_A \<and>
   fst (calculate_optimal_mix scenario_A 2025 1) =
       \<lparr>optimal_mix = [], to_buy = [], total_cost_for_targets = 0\<rparr>"
  using C9_empty_demand [of scenario_A 2025 1]
  by (simp add: scenario_defs targets_of_def lots_of_def)

subsection \<open>C10\<close>

text \<open>
  C10, noninterference. Two sessions with the same sales targets whose purchase rows
  agree, position by position, on \<open>alloy_type\<close>, \<open>price_per_kg\<close>,
  \<open>remaining_quantity_kg\<close> and \<open>id\<close> give the same result, whatever their other
  fields are.
\<close>

theorem C10_noninterference:
  assumes "salestarget_rows s1 = salestarget_rows s2"
      and "list_all2 same_read (purchase_rows s1) (purchase_rows s2)"
  shows "fst (calculate_optimal_mix s1 y m) = fst (calculate_optimal_mix s2 y m)"
proof -
  have t: "target_dict s1 y m = target_dict s2 y m"
    using assms(1) by (rule target_dict_rows)
  have b: "batch_steps a (sort_key price_per_kg (lots_for a (lots_of s1))) n =
           batch_steps a (sort_key price_per_kg (lots_for a (lots_of s2))) n" for a n
    using same_read_batch [OF same_read_lots [OF assms(2)]] by blast
  have l: "batch_left (sort_key price_per_kg (lots_for a (lots_of s1))) n =
           batch_left (sort_key price_per_kg (lots_for a (lots_of s2))) n" for a n
    using same_read_batch [OF same_read_lots [OF assms(2)]] by blast
  have "mix s1 y m = mix s2 y m"
    unfolding mix_eq t b l ..
  then show ?thesis by (simp add: mix_def)
qed

theorem C10_noninterference_witness:
  "salestarget_rows scenario_A = salestarget_rows scenario_A_other \<and>
   list_all2 same_read (purchase_rows scenario_A) (purchase_rows scenario_A_other) \<and>
   purchase_rows scenario_A \<noteq> purchase_rows scenario_A_other \<and>
   fst (calculate_optimal_mix scenario_A 2024 1) = fst (calculate_optimal_mix scenario_A_other 2024 1)"
proof -
  have t: "salestarget_rows scenario_A = salestarget_rows scenario_A_other"
    by (simp add: scenario_defs)
  have p: "list_all2 same_read (purchase_rows scenario_A) (purchase_rows scenario_A_other)"
    by (simp add: scenario_defs same_read_def)
  have n: "purchase_rows scenario_A \<noteq> purchase_rows scenario_A_other"
    by (simp add: scenario_defs)
  show ?thesis using t p n C10_noninterference [OF t p, of 2024 1] by blast
qed

end
